theory Spec2Isabelle
  imports Main "HOL-Library.Monad_Syntax"
begin

section \<open>The fatal error handler registry of \<^verbatim>\<open>fatal_error_handler.cc\<close>\<close>

text \<open>
  The file keeps one process-wide atomic pointer \<^verbatim>\<open>fatal_error_handlers\<close> to a
  heap-allocated \<^verbatim>\<open>std::list<const FatalErrorHandlerInterface*>\<close>. Three functions touch
  it: \<^verbatim>\<open>registerFatalErrorHandler\<close>, \<^verbatim>\<open>removeFatalErrorHandler\<close> and
  \<^verbatim>\<open>callFatalErrorHandlers\<close>.

  The model is sequential: each function runs from its first statement to its last
  without interleaving, so \<^verbatim>\<open>failure_mutex\<close> and the memory orders of the atomic
  operations have no counterpart. A handler is the address of its object (the list stores
  \<^verbatim>\<open>&handler\<close> and \<^verbatim>\<open>std::list::remove\<close> compares these pointers); an output stream
  is the identity of the \<^verbatim>\<open>std::ostream\<close> passed by reference. A result \<open>None\<close> of an
  operation says that the call has no defined outcome: the C++ code dereferences
  \<^verbatim>\<open>nullptr\<close> or a pointer to a deleted list.

  Which address \<^verbatim>\<open>operator new\<close> returns is not fixed by the code: it may be a new one or
  the one just deleted. So the address is an input of the model, \<open>new_addr\<close>, and every
  property below holds for every value of it. Only the address of a live list is excluded
  (\<open>new_list\<close> has no outcome for it), and in the states the program reaches no list is
  live when \<^verbatim>\<open>new\<close> runs, so there every address is allowed.
\<close>

subsection \<open>Data\<close>

type_synonym handler = nat
type_synonym ostream = nat
type_synonym addr = nat
type_synonym FailureFunctionList = "handler list"

text \<open>A \<^verbatim>\<open>FailureFunctionList*\<close>: \<open>None\<close> is \<^verbatim>\<open>nullptr\<close>.\<close>

type_synonym list_ptr = "addr option"

text \<open>
  The state: the live \<^verbatim>\<open>FailureFunctionList\<close> objects of the heap, by address, and the
  atomic pointer.
\<close>

record state =
  heap :: "addr \<rightharpoonup> FailureFunctionList"
  fatal_error_handlers :: list_ptr

text \<open>\<^verbatim>\<open>ABSL_CONST_INIT std::atomic<FailureFunctionList*> fatal_error_handlers{nullptr}\<close>\<close>

definition initial_state :: state where
  "initial_state = \<lparr>heap = Map.empty, fatal_error_handlers = None\<rparr>"

text \<open>One call \<^verbatim>\<open>handler->onFatalError(os)\<close>, as an observable event.\<close>

datatype call = OnFatalError handler ostream

subsection \<open>The primitives the three functions use\<close>

text \<open>\<^verbatim>\<open>fatal_error_handlers.exchange(p, ...)\<close>: the old pointer, and the state with \<open>p\<close> stored.\<close>

definition exchange :: "list_ptr \<Rightarrow> state \<Rightarrow> list_ptr \<times> state" where
  "exchange p s = (fatal_error_handlers s, s\<lparr>fatal_error_handlers := p\<rparr>)"

text \<open>\<^verbatim>\<open>fatal_error_handlers.store(p, ...)\<close>\<close>

definition store :: "list_ptr \<Rightarrow> state \<Rightarrow> state" where
  "store p s = s\<lparr>fatal_error_handlers := p\<rparr>"

text \<open>
  \<^verbatim>\<open>new FailureFunctionList\<close>, when \<^verbatim>\<open>operator new\<close> returns \<open>new_addr\<close>: a pointer to a
  new, empty list there. \<^verbatim>\<open>operator new\<close> never returns the address of a live object, so
  for such an address there is no outcome.
\<close>

definition new_list :: "addr \<Rightarrow> state \<Rightarrow> (list_ptr \<times> state) option" where
  "new_list new_addr s =
     (case heap s new_addr of
        None \<Rightarrow> Some (Some new_addr, s\<lparr>heap := (heap s)(new_addr \<mapsto> [])\<rparr>)
      | Some xs \<Rightarrow> None)"

text \<open>\<^verbatim>\<open>*list\<close>: undefined for \<^verbatim>\<open>nullptr\<close> and for a pointer to no live list.\<close>

definition deref :: "list_ptr \<Rightarrow> state \<Rightarrow> FailureFunctionList option" where
  "deref p s = (case p of None \<Rightarrow> None | Some a \<Rightarrow> heap s a)"

text \<open>\<^verbatim>\<open>delete list\<close>: deleting \<^verbatim>\<open>nullptr\<close> does nothing, deleting twice is undefined.\<close>

definition delete_list :: "list_ptr \<Rightarrow> state \<Rightarrow> state option" where
  "delete_list p s =
     (case p of
        None \<Rightarrow> Some s
      | Some a \<Rightarrow>
          (case heap s a of
             None \<Rightarrow> None
           | Some xs \<Rightarrow> Some (s\<lparr>heap := (heap s)(a := None)\<rparr>)))"

text \<open>\<^verbatim>\<open>list->push_back(&handler)\<close>\<close>

definition push_back :: "list_ptr \<Rightarrow> handler \<Rightarrow> state \<Rightarrow> state option" where
  "push_back p h s =
     (case p of
        None \<Rightarrow> None
      | Some a \<Rightarrow>
          (case heap s a of
             None \<Rightarrow> None
           | Some xs \<Rightarrow> Some (s\<lparr>heap := (heap s)(a \<mapsto> xs @ [h])\<rparr>)))"

text \<open>
  \<^verbatim>\<open>std::list::remove(value)\<close> on the list's contents: every element equal to the value
  goes, the others keep their order.
\<close>

fun remove_value :: "handler \<Rightarrow> FailureFunctionList \<Rightarrow> FailureFunctionList" where
  "remove_value v [] = []"
| "remove_value v (x # xs) = (if x = v then remove_value v xs else x # remove_value v xs)"

text \<open>\<^verbatim>\<open>list->remove(&handler)\<close>\<close>

definition list_remove :: "list_ptr \<Rightarrow> handler \<Rightarrow> state \<Rightarrow> state option" where
  "list_remove p h s =
     (case p of
        None \<Rightarrow> None
      | Some a \<Rightarrow>
          (case heap s a of
             None \<Rightarrow> None
           | Some xs \<Rightarrow> Some (s\<lparr>heap := (heap s)(a \<mapsto> remove_value h xs)\<rparr>)))"

text \<open>\<^verbatim>\<open>list->empty()\<close>\<close>

definition list_empty :: "list_ptr \<Rightarrow> state \<Rightarrow> bool option" where
  "list_empty p s = map_option (\<lambda>xs. xs = []) (deref p s)"

text \<open>
  The loop \<^verbatim>\<open>for (const auto* handler : *list) { handler->onFatalError(os); }\<close>: the calls
  it makes, in the order it makes them. What a handler writes is outside this file; a
  handler is taken to return and not to call back into the registry.
\<close>

fun call_each :: "ostream \<Rightarrow> FailureFunctionList \<Rightarrow> call list" where
  "call_each os [] = []"
| "call_each os (handler # rest) = OnFatalError handler os # call_each os rest"

subsection \<open>The three functions\<close>

text \<open>
  The first argument says whether \<^verbatim>\<open>ENVOY_OBJECT_TRACE_ON_DUMP\<close> is defined at build
  time: the bodies of the first two functions are under \<^verbatim>\<open>#ifdef\<close>, and the
  \<^verbatim>\<open>#else\<close> branch only marks the parameter as unreferenced. The second argument of
  \<open>registerFatalErrorHandler\<close> is the address \<^verbatim>\<open>operator new\<close> returns if the call
  reaches \<^verbatim>\<open>new FailureFunctionList\<close>.
\<close>

definition registerFatalErrorHandler ::
  "bool \<Rightarrow> addr \<Rightarrow> handler \<Rightarrow> state \<Rightarrow> state option" where
  "registerFatalErrorHandler object_trace_on_dump new_addr handler s =
     (if object_trace_on_dump then
        (case exchange None s of
           (list, s1) \<Rightarrow>
             do {
               (list', s2) \<leftarrow> (if list = None then new_list new_addr s1 else Some (list, s1));
               s3 \<leftarrow> push_back list' handler s2;
               Some (store list' s3)
             })
      else Some s)"

definition removeFatalErrorHandler :: "bool \<Rightarrow> handler \<Rightarrow> state \<Rightarrow> state option" where
  "removeFatalErrorHandler object_trace_on_dump handler s =
     (if object_trace_on_dump then
        (case exchange None s of
           (list, s1) \<Rightarrow>
             if list = None then Some s1
             else
               do {
                 s2 \<leftarrow> list_remove list handler s1;
                 is_empty \<leftarrow> list_empty list s2;
                 if is_empty then delete_list list s2 else Some (store list s2)
               })
      else Some s)"

text \<open>
  \<^verbatim>\<open>callFatalErrorHandlers\<close> is not under the \<^verbatim>\<open>#ifdef\<close>. It returns the calls it made
  and the state it leaves.
\<close>

definition callFatalErrorHandlers :: "ostream \<Rightarrow> state \<Rightarrow> (call list \<times> state) option" where
  "callFatalErrorHandlers os s =
     (case exchange None s of
        (list, s1) \<Rightarrow>
          if list \<noteq> None then
            do {
              handlers \<leftarrow> deref list s1;
              s2 \<leftarrow> delete_list list s1;
              Some (call_each os handlers, s2)
            }
          else Some ([], s1))"

subsection \<open>Reading a state\<close>

text \<open>The registered sequence: the list the pointer leads to, and nothing for \<^verbatim>\<open>nullptr\<close>.\<close>

definition registered :: "state \<Rightarrow> FailureFunctionList" where
  "registered s =
     (case fatal_error_handlers s of
        None \<Rightarrow> []
      | Some a \<Rightarrow> (case heap s a of None \<Rightarrow> [] | Some xs \<Rightarrow> xs))"

subsection \<open>Histories\<close>

text \<open>
  The pointer is in an anonymous namespace, so only the three functions touch it, and the
  states the program can be in are the ones a sequence of calls produces from the initial
  state. The flag is fixed at build time, so it is the same for every call of a history.
  A register call comes with the address \<^verbatim>\<open>operator new\<close> would return in it.
\<close>

datatype operation = Register addr handler | Remove handler | Invoke ostream

fun apply_operation :: "bool \<Rightarrow> operation \<Rightarrow> state \<Rightarrow> state option" where
  "apply_operation flag (Register a h) s = registerFatalErrorHandler flag a h s"
| "apply_operation flag (Remove h) s = removeFatalErrorHandler flag h s"
| "apply_operation flag (Invoke os) s = map_option snd (callFatalErrorHandlers os s)"

fun run :: "bool \<Rightarrow> operation list \<Rightarrow> state \<Rightarrow> state option" where
  "run flag [] s = Some s"
| "run flag (x # xs) s =
     (case apply_operation flag x s of
        None \<Rightarrow> None
      | Some s' \<Rightarrow> run flag xs s')"

text \<open>
  What every state of a history satisfies: the heap holds the list the pointer leads to and
  nothing else, and that list is not empty.
\<close>

definition well_formed :: "state \<Rightarrow> bool" where
  "well_formed s =
     (case fatal_error_handlers s of
        None \<Rightarrow> heap s = Map.empty
      | Some a \<Rightarrow>
          (case heap s a of
             None \<Rightarrow> False
           | Some xs \<Rightarrow> xs \<noteq> [] \<and> heap s = [a \<mapsto> xs]))"

text \<open>
  The condition of the slot after an operation: it is \<^verbatim>\<open>nullptr\<close>, or it points to a live
  list that is not empty.
\<close>

definition empty_or_nonempty :: "state \<Rightarrow> bool" where
  "empty_or_nonempty s =
     (case fatal_error_handlers s of
        None \<Rightarrow> True
      | Some a \<Rightarrow> (case heap s a of None \<Rightarrow> False | Some xs \<Rightarrow> xs \<noteq> []))"

section \<open>Properties\<close>

subsection \<open>The list primitives\<close>

lemma remove_value_filter: "remove_value v xs = filter (\<lambda>x. x \<noteq> v) xs"
  by (induction xs) auto

lemma remove_value_absent: "h \<notin> set xs \<Longrightarrow> remove_value h xs = xs"
  by (induction xs) auto

lemma remove_value_snoc: "h \<notin> set xs \<Longrightarrow> remove_value h (xs @ [h]) = xs"
  by (induction xs) auto

lemma count_remove_value: "count_list (remove_value h xs) h = 0"
  by (induction xs) auto

lemma call_each_map: "call_each os xs = map (\<lambda>h. OnFatalError h os) xs"
  by (induction xs) auto

lemma count_call_each: "count_list (call_each os xs) (OnFatalError h os) = count_list xs h"
  by (induction xs) auto

lemma distinct_count_one: "distinct xs \<Longrightarrow> x \<in> set xs \<Longrightarrow> count_list xs x = 1"
  by (induction xs) auto

subsection \<open>Each function, by the case of the pointer\<close>

lemmas registry_defs =
  initial_state_def registerFatalErrorHandler_def removeFatalErrorHandler_def
  callFatalErrorHandlers_def exchange_def store_def new_list_def deref_def delete_list_def
  push_back_def list_remove_def list_empty_def registered_def

lemma registered_null: "fatal_error_handlers s = None \<Longrightarrow> registered s = []"
  by (simp add: registered_def)

lemma registered_same:
  "heap s' = heap s \<Longrightarrow> fatal_error_handlers s' = fatal_error_handlers s \<Longrightarrow>
   registered s' = registered s"
  by (auto simp: registered_def split: option.splits)

lemma register_null:
  assumes "fatal_error_handlers s = None" "heap s a = None"
  shows "registerFatalErrorHandler True a h s =
    Some (s\<lparr>heap := (heap s)(a \<mapsto> [h]), fatal_error_handlers := Some a\<rparr>)"
  using assms
  by (simp add: registerFatalErrorHandler_def exchange_def new_list_def push_back_def store_def)

lemma register_list:
  assumes "fatal_error_handlers s = Some b" "heap s b = Some xs"
  shows "registerFatalErrorHandler True a h s = Some (s\<lparr>heap := (heap s)(b \<mapsto> xs @ [h])\<rparr>)"
  using assms
  by (simp add: registerFatalErrorHandler_def exchange_def push_back_def store_def)

lemma remove_null:
  assumes "fatal_error_handlers s = None"
  shows "removeFatalErrorHandler flag h s = Some s"
  using assms
  by (simp add: removeFatalErrorHandler_def exchange_def)

lemma remove_list_empty:
  assumes "fatal_error_handlers s = Some a" "heap s a = Some xs" "remove_value h xs = []"
  shows "removeFatalErrorHandler True h s =
    Some (s\<lparr>heap := (heap s)(a := None), fatal_error_handlers := None\<rparr>)"
  using assms
  by (simp add: removeFatalErrorHandler_def exchange_def list_remove_def list_empty_def
      deref_def delete_list_def)

lemma remove_list_nonempty:
  assumes "fatal_error_handlers s = Some a" "heap s a = Some xs" "remove_value h xs \<noteq> []"
  shows "removeFatalErrorHandler True h s =
    Some (s\<lparr>heap := (heap s)(a \<mapsto> remove_value h xs)\<rparr>)"
  using assms
  by (simp add: removeFatalErrorHandler_def exchange_def list_remove_def list_empty_def
      deref_def store_def)

lemma call_null:
  assumes "fatal_error_handlers s = None"
  shows "callFatalErrorHandlers os s = Some ([], s)"
  using assms
  by (simp add: callFatalErrorHandlers_def exchange_def)

lemma call_list:
  assumes "fatal_error_handlers s = Some a" "heap s a = Some xs"
  shows "callFatalErrorHandlers os s =
    Some (call_each os xs, s\<lparr>heap := (heap s)(a := None), fatal_error_handlers := None\<rparr>)"
  using assms
  by (simp add: callFatalErrorHandlers_def exchange_def deref_def delete_list_def)

lemma flag_off_register: "registerFatalErrorHandler False a h s = Some s"
  by (simp add: registerFatalErrorHandler_def)

lemma flag_off_remove: "removeFatalErrorHandler False h s = Some s"
  by (simp add: removeFatalErrorHandler_def)

subsection \<open>Well-formed states\<close>

lemma well_formed_initial: "well_formed initial_state"
  by (simp add: well_formed_def initial_state_def)

lemma well_formed_cases:
  assumes "well_formed s"
  obtains (null) "fatal_error_handlers s = None" "heap s = Map.empty"
  | (list) b xs where "fatal_error_handlers s = Some b" "heap s = [b \<mapsto> xs]" "xs \<noteq> []"
  using assms unfolding well_formed_def
  by (auto split: option.splits)

lemma well_formed_empty_or_nonempty: "well_formed s \<Longrightarrow> empty_or_nonempty s"
  by (auto simp: well_formed_def empty_or_nonempty_def split: option.splits)

lemma register_well_formed:
  assumes "well_formed s"
  shows "\<exists>s'. registerFatalErrorHandler True a h s = Some s' \<and> well_formed s' \<and>
    registered s' = registered s @ [h]"
  using assms
proof (cases rule: well_formed_cases)
  case null
  then show ?thesis
    by (simp add: register_null well_formed_def registered_def)
next
  case (list b xs)
  then show ?thesis
    by (simp add: register_list [where xs = xs] well_formed_def registered_def)
qed

lemma remove_well_formed:
  assumes "well_formed s"
  shows "\<exists>s'. removeFatalErrorHandler True h s = Some s' \<and> well_formed s' \<and>
    registered s' = remove_value h (registered s)"
  using assms
proof (cases rule: well_formed_cases)
  case null
  then show ?thesis
    using assms by (simp add: remove_null registered_def)
next
  case (list b xs)
  show ?thesis
  proof (cases "remove_value h xs = []")
    case True
    with list show ?thesis
      by (simp add: remove_list_empty [where xs = xs] well_formed_def registered_def)
  next
    case False
    with list show ?thesis
      by (simp add: remove_list_nonempty [where xs = xs] well_formed_def registered_def)
  qed
qed

lemma call_well_formed:
  assumes "well_formed s"
  shows "\<exists>s'. callFatalErrorHandlers os s = Some (call_each os (registered s), s') \<and>
    well_formed s' \<and> fatal_error_handlers s' = None \<and> heap s' = Map.empty"
  using assms
proof (cases rule: well_formed_cases)
  case null
  then show ?thesis
    using assms by (simp add: call_null registered_def)
next
  case (list b xs)
  then show ?thesis
    by (simp add: call_list [where xs = xs] well_formed_def registered_def)
qed

lemma register_completes:
  assumes "well_formed s"
  shows "\<exists>s'. registerFatalErrorHandler flag a h s = Some s' \<and> well_formed s'"
proof (cases flag)
  case True
  with register_well_formed [OF assms, of a h] show ?thesis
    by auto
next
  case False
  with assms show ?thesis
    by (simp add: flag_off_register)
qed

lemma remove_completes:
  assumes "well_formed s"
  shows "\<exists>s'. removeFatalErrorHandler flag h s = Some s' \<and> well_formed s'"
proof (cases flag)
  case True
  with remove_well_formed [OF assms, of h] show ?thesis
    by auto
next
  case False
  with assms show ?thesis
    by (simp add: flag_off_remove)
qed

lemma call_completes:
  assumes "well_formed s"
  shows "\<exists>cs s'. callFatalErrorHandlers os s = Some (cs, s') \<and> well_formed s'"
  using call_well_formed [OF assms, of os] by blast

lemma apply_operation_completes:
  assumes "well_formed s"
  shows "\<exists>s'. apply_operation flag x s = Some s' \<and> well_formed s'"
proof (cases x)
  case (Register a h)
  with register_completes [OF assms, of flag a h] show ?thesis
    by simp
next
  case (Remove h)
  with remove_completes [OF assms, of flag h] show ?thesis
    by simp
next
  case (Invoke os)
  with call_completes [OF assms, of os] show ?thesis
    by auto
qed

text \<open>Every history runs to a state, whatever addresses the allocator returns in it.\<close>

lemma run_completes: "well_formed s \<Longrightarrow> \<exists>s'. run flag xs s = Some s' \<and> well_formed s'"
proof (induction xs arbitrary: s)
  case Nil
  then show ?case by simp
next
  case (Cons x xs)
  from apply_operation_completes [OF Cons.prems, of flag x] obtain s1 where
    s1: "apply_operation flag x s = Some s1" "well_formed s1"
    by blast
  from Cons.IH [OF s1(2)] s1(1) show ?case
    by simp
qed

lemma history_completes: "\<exists>s. run flag xs initial_state = Some s"
  using run_completes [OF well_formed_initial, of flag xs] by blast

lemma history_well_formed: "run flag xs initial_state = Some s \<Longrightarrow> well_formed s"
  using run_completes [OF well_formed_initial, of flag xs] by auto

lemma apply_operation_flag_off:
  assumes "fatal_error_handlers s = None" and "apply_operation False x s = Some s'"
  shows "fatal_error_handlers s' = None"
  using assms by (cases x) (auto simp: flag_off_register flag_off_remove call_null)

lemma run_flag_off:
  "fatal_error_handlers s = None \<Longrightarrow> run False xs s = Some s' \<Longrightarrow>
   fatal_error_handlers s' = None"
proof (induction xs arbitrary: s)
  case Nil
  then show ?case by simp
next
  case (Cons x xs)
  from Cons.prems(2) obtain s1 where
    s1: "apply_operation False x s = Some s1" "run False xs s1 = Some s'"
    by (auto split: option.splits)
  from apply_operation_flag_off [OF Cons.prems(1) s1(1)] have "fatal_error_handlers s1 = None" .
  from Cons.IH [OF this s1(2)] show ?case .
qed

lemma history_flag_off: "run False xs initial_state = Some s \<Longrightarrow> fatal_error_handlers s = None"
  by (rule run_flag_off [where s = initial_state]) (simp_all add: initial_state_def)

lemma run_registers:
  "well_formed s \<Longrightarrow> length as = length hs \<Longrightarrow>
   \<exists>s'. run True (map2 Register as hs) s = Some s' \<and> well_formed s' \<and>
     registered s' = registered s @ hs"
proof (induction hs arbitrary: s as)
  case Nil
  then show ?case by simp
next
  case (Cons h hs)
  from Cons.prems(2) obtain a as' where as: "as = a # as'" "length as' = length hs"
    by (cases as) auto
  from register_well_formed [OF Cons.prems(1), of a h] obtain s1 where
    s1: "registerFatalErrorHandler True a h s = Some s1" "well_formed s1"
      "registered s1 = registered s @ [h]"
    by blast
  from Cons.IH [OF s1(2) as(2)] obtain s' where
    "run True (map2 Register as' hs) s1 = Some s'" "well_formed s'"
    "registered s' = registered s1 @ hs"
    by blast
  with s1 as(1) show ?case by simp
qed

lemma remove_last:
  assumes "well_formed s" and "registered s \<noteq> []" and "remove_value h (registered s) = []"
  shows "\<exists>s'. removeFatalErrorHandler True h s = Some s' \<and>
    fatal_error_handlers s' = None \<and> heap s' = Map.empty"
  using assms(1)
proof (cases rule: well_formed_cases)
  case null
  with assms(2) show ?thesis
    by (simp add: registered_def)
next
  case (list b xs)
  with assms(3) have "remove_value h xs = []"
    by (simp add: registered_def)
  with list show ?thesis
    by (simp add: remove_list_empty [where xs = xs])
qed

lemma remove_absent:
  assumes "well_formed s" and "h \<notin> set (registered s)"
  shows "removeFatalErrorHandler True h s = Some s"
  using assms(1)
proof (cases rule: well_formed_cases)
  case null
  then show ?thesis
    by (simp add: remove_null)
next
  case (list b xs)
  with assms(2) have "remove_value h xs = xs"
    by (simp add: registered_def remove_value_absent)
  with list have "removeFatalErrorHandler True h s = Some (s\<lparr>heap := (heap s)(b \<mapsto> xs)\<rparr>)"
    by (simp add: remove_list_nonempty [where xs = xs])
  moreover from list have "(heap s)(b \<mapsto> xs) = heap s"
    by simp
  ultimately show ?thesis
    by simp
qed

lemma register_then_remove:
  assumes "well_formed s" and "h \<notin> set (registered s)"
  shows "\<exists>s1 s2. registerFatalErrorHandler True a h s = Some s1 \<and>
    removeFatalErrorHandler True h s1 = Some s2 \<and>
    heap s2 = heap s \<and> fatal_error_handlers s2 = fatal_error_handlers s"
  using assms(1)
proof (cases rule: well_formed_cases)
  case null
  then show ?thesis
    by (simp add: register_null removeFatalErrorHandler_def exchange_def list_remove_def
        list_empty_def deref_def delete_list_def)
next
  case (list b xs)
  with assms(2) have "h \<notin> set xs"
    by (simp add: registered_def)
  then have "remove_value h (xs @ [h]) = xs"
    by (rule remove_value_snoc)
  with list show ?thesis
    by (simp add: register_list [where xs = xs] removeFatalErrorHandler_def exchange_def
        list_remove_def list_empty_def deref_def store_def)
qed

lemma register_fresh:
  assumes "well_formed s" and "fatal_error_handlers s = None"
  shows "\<exists>s'. registerFatalErrorHandler True a h s = Some s' \<and>
    heap s = Map.empty \<and> fatal_error_handlers s' = Some a \<and> heap s' = [a \<mapsto> [h]]"
  using assms by (simp add: register_null well_formed_def)

lemma register_reuses:
  assumes "well_formed s" and "fatal_error_handlers s \<noteq> None"
  shows "\<exists>s'. registerFatalErrorHandler True a h s = Some s' \<and>
    fatal_error_handlers s' = fatal_error_handlers s"
  using assms(1)
proof (cases rule: well_formed_cases)
  case null
  with assms(2) show ?thesis by simp
next
  case (list b xs)
  then show ?thesis
    by (simp add: register_list [where xs = xs])
qed

subsection \<open>Three histories, evaluated\<close>

lemma history_one:
  "run True [Register 0 7] initial_state =
     Some \<lparr>heap = [0 \<mapsto> [7]], fatal_error_handlers = Some 0\<rparr>"
  by (simp add: registry_defs)

lemma history_two:
  "run True [Register 0 3, Register 1 4] initial_state =
     Some \<lparr>heap = [0 \<mapsto> [3, 4]], fatal_error_handlers = Some 0\<rparr>"
  by (simp add: registry_defs)

lemma history_drained:
  "run True [Register 0 9, Remove 9] initial_state = Some initial_state"
  by (simp add: registry_defs)

subsection \<open>Claims\<close>

text \<open>
  C1. In the build that has the registry (\<^verbatim>\<open>ENVOY_OBJECT_TRACE_ON_DUMP\<close> defined; the
  other build registers nothing), from the initial state and from any later state whose pointer is
  \<^verbatim>\<open>nullptr\<close>: registering the distinct handlers \<open>h1, ..., hn\<close> with nothing in between
  and then calling \<^verbatim>\<open>callFatalErrorHandlers(os)\<close> once makes the calls
  \<open>h1->onFatalError(os), ..., hn->onFatalError(os)\<close>, in this order and nothing else, so
  each handler is called exactly once. The addresses \<open>as\<close> are what \<^verbatim>\<open>operator new\<close> would
  return in each register call; they do not matter.
\<close>

theorem registered_handlers_called_in_order:
  assumes "run True history initial_state = Some s0"
    and "fatal_error_handlers s0 = None"
    and "distinct hs"
    and "length as = length hs"
  shows "\<exists>s cs s'. run True (map2 Register as hs) s0 = Some s \<and>
      callFatalErrorHandlers os s = Some (cs, s') \<and>
      cs = map (\<lambda>h. OnFatalError h os) hs \<and>
      (\<forall>h\<in>set hs. count_list cs (OnFatalError h os) = 1)"
proof -
  have wf0: "well_formed s0"
    using assms(1) by (rule history_well_formed)
  have empty0: "registered s0 = []"
    using assms(2) by (rule registered_null)
  from run_registers [OF wf0 assms(4)] obtain s where
    s: "run True (map2 Register as hs) s0 = Some s" "well_formed s"
      "registered s = registered s0 @ hs"
    by blast
  from call_well_formed [OF s(2), of os] obtain s' where
    s': "callFatalErrorHandlers os s = Some (call_each os (registered s), s')"
    by blast
  have once: "\<forall>h\<in>set hs. count_list (call_each os hs) (OnFatalError h os) = 1"
    using assms(3) by (simp add: count_call_each distinct_count_one)
  show ?thesis
    using s(1) s(3) s' empty0 once by (simp add: call_each_map)
qed

theorem registered_handlers_called_in_order_witness:
  "run True [Register 0 9, Remove 9] initial_state = Some initial_state \<and>
   fatal_error_handlers initial_state = None \<and>
   distinct [3, 4 :: nat] \<and>
   length [0, 1 :: nat] = length [3, 4 :: nat] \<and>
   run True (map2 Register [0, 1] [3, 4]) initial_state =
     Some \<lparr>heap = [0 \<mapsto> [3, 4]], fatal_error_handlers = Some 0\<rparr> \<and>
   callFatalErrorHandlers 5 \<lparr>heap = [0 \<mapsto> [3, 4]], fatal_error_handlers = Some 0\<rparr> =
     Some ([OnFatalError 3 5, OnFatalError 4 5], initial_state)"
proof -
  have e: "fatal_error_handlers initial_state = None"
    by (simp add: initial_state_def)
  have d: "distinct [3, 4 :: nat]"
    by simp
  have l: "length [0, 1 :: nat] = length [3, 4 :: nat]"
    by simp
  have registers:
    "run True (map2 Register [0, 1] [3, 4]) initial_state =
     Some \<lparr>heap = [0 \<mapsto> [3, 4]], fatal_error_handlers = Some 0\<rparr>"
    by (simp add: registry_defs)
  from registered_handlers_called_in_order [OF history_drained e d l, of 5] registers
  obtain s' where
    "callFatalErrorHandlers 5 \<lparr>heap = [0 \<mapsto> [3, 4]], fatal_error_handlers = Some 0\<rparr> =
     Some (map (\<lambda>h. OnFatalError h 5) [3, 4], s')"
    by auto
  then have
    "callFatalErrorHandlers 5 \<lparr>heap = [0 \<mapsto> [3, 4]], fatal_error_handlers = Some 0\<rparr> =
     Some ([OnFatalError 3 5, OnFatalError 4 5], initial_state)"
    by (simp add: registry_defs)
  with history_drained e d l registers show ?thesis
    by blast
qed

text \<open>
  C2. In every state of a history, for either setting of the flag, an invocation completes
  and calls the registered handlers; a second invocation right after it completes too,
  calls no handler and changes nothing.
\<close>

theorem invocation_is_one_shot:
  assumes "run flag history initial_state = Some s"
  shows "\<exists>cs s'. callFatalErrorHandlers os s = Some (cs, s') \<and>
      cs = map (\<lambda>h. OnFatalError h os) (registered s) \<and>
      callFatalErrorHandlers os' s' = Some ([], s')"
proof -
  from call_well_formed [OF history_well_formed [OF assms], of os] obtain s' where
    s': "callFatalErrorHandlers os s = Some (call_each os (registered s), s')"
      "fatal_error_handlers s' = None"
    by blast
  from s'(2) have "callFatalErrorHandlers os' s' = Some ([], s')"
    by (rule call_null)
  with s'(1) show ?thesis
    by (simp add: call_each_map)
qed

theorem invocation_is_one_shot_witness:
  "run True [Register 0 3, Register 1 4] initial_state =
     Some \<lparr>heap = [0 \<mapsto> [3, 4]], fatal_error_handlers = Some 0\<rparr> \<and>
   callFatalErrorHandlers 5 \<lparr>heap = [0 \<mapsto> [3, 4]], fatal_error_handlers = Some 0\<rparr> =
     Some ([OnFatalError 3 5, OnFatalError 4 5], initial_state) \<and>
   callFatalErrorHandlers 6 initial_state = Some ([], initial_state)"
proof -
  from invocation_is_one_shot [OF history_two, of 5 6]
  obtain cs s' where
    "callFatalErrorHandlers 5 \<lparr>heap = [0 \<mapsto> [3, 4]], fatal_error_handlers = Some 0\<rparr> =
     Some (cs, s')"
    "callFatalErrorHandlers 6 s' = Some ([], s')"
    by blast
  then have
    "callFatalErrorHandlers 5 \<lparr>heap = [0 \<mapsto> [3, 4]], fatal_error_handlers = Some 0\<rparr> =
     Some ([OnFatalError 3 5, OnFatalError 4 5], initial_state) \<and>
     callFatalErrorHandlers 6 initial_state = Some ([], initial_state)"
    by (simp add: registry_defs)
  with history_two show ?thesis
    by blast
qed

text \<open>
  C3, as amended. With the flag defined, in every state of a history: registering \<open>h\<close>
  twice appends two entries, so an invocation then calls \<open>h\<close> twice, on top of one call for
  each earlier entry of \<open>h\<close>; removing \<open>h\<close> once after the two registrations removes every
  entry of \<open>h\<close>, so an invocation then does not call \<open>h\<close> at all.
\<close>

theorem register_twice_unregister_once:
  assumes "run True history initial_state = Some s"
  shows "\<exists>s1 s2 cs t s3 cs' t'.
      registerFatalErrorHandler True a h s = Some s1 \<and>
      registerFatalErrorHandler True a' h s1 = Some s2 \<and>
      registered s2 = registered s @ [h, h] \<and>
      callFatalErrorHandlers os s2 = Some (cs, t) \<and>
      count_list cs (OnFatalError h os) = count_list (registered s) h + 2 \<and>
      removeFatalErrorHandler True h s2 = Some s3 \<and>
      registered s3 = filter (\<lambda>x. x \<noteq> h) (registered s) \<and>
      callFatalErrorHandlers os s3 = Some (cs', t') \<and>
      count_list cs' (OnFatalError h os) = 0"
proof -
  have wf: "well_formed s"
    using assms by (rule history_well_formed)
  from register_well_formed [OF wf, of a h] obtain s1 where
    s1: "registerFatalErrorHandler True a h s = Some s1" "well_formed s1"
      "registered s1 = registered s @ [h]"
    by blast
  from register_well_formed [OF s1(2), of a' h] obtain s2 where
    s2: "registerFatalErrorHandler True a' h s1 = Some s2" "well_formed s2"
      "registered s2 = registered s1 @ [h]"
    by blast
  from call_well_formed [OF s2(2), of os] obtain t where
    t: "callFatalErrorHandlers os s2 = Some (call_each os (registered s2), t)"
    by blast
  from remove_well_formed [OF s2(2), of h] obtain s3 where
    s3: "removeFatalErrorHandler True h s2 = Some s3" "well_formed s3"
      "registered s3 = remove_value h (registered s2)"
    by blast
  from call_well_formed [OF s3(2), of os] obtain t' where
    t': "callFatalErrorHandlers os s3 = Some (call_each os (registered s3), t')"
    by blast
  have two: "registered s2 = registered s @ [h, h]"
    using s1(3) s2(3) by simp
  have twice: "count_list (call_each os (registered s2)) (OnFatalError h os) =
      count_list (registered s) h + 2"
    by (simp add: count_call_each two)
  have rest: "registered s3 = filter (\<lambda>x. x \<noteq> h) (registered s)"
    using s3(3) two by (simp add: remove_value_filter)
  have never: "count_list (call_each os (registered s3)) (OnFatalError h os) = 0"
    by (simp add: count_call_each s3(3) count_remove_value)
  show ?thesis
    by (intro exI conjI) (fact s1(1) s2(1) two t twice s3(1) rest t' never)+
qed

theorem register_twice_unregister_once_witness:
  "run True [Register 0 3, Register 1 4] initial_state =
     Some \<lparr>heap = [0 \<mapsto> [3, 4]], fatal_error_handlers = Some 0\<rparr> \<and>
   registerFatalErrorHandler True 1 7
       \<lparr>heap = [0 \<mapsto> [3, 4]], fatal_error_handlers = Some 0\<rparr> =
     Some \<lparr>heap = [0 \<mapsto> [3, 4, 7]], fatal_error_handlers = Some 0\<rparr> \<and>
   registerFatalErrorHandler True 2 7
       \<lparr>heap = [0 \<mapsto> [3, 4, 7]], fatal_error_handlers = Some 0\<rparr> =
     Some \<lparr>heap = [0 \<mapsto> [3, 4, 7, 7]], fatal_error_handlers = Some 0\<rparr> \<and>
   callFatalErrorHandlers 5 \<lparr>heap = [0 \<mapsto> [3, 4, 7, 7]], fatal_error_handlers = Some 0\<rparr> =
     Some ([OnFatalError 3 5, OnFatalError 4 5, OnFatalError 7 5, OnFatalError 7 5],
       initial_state) \<and>
   removeFatalErrorHandler True 7
       \<lparr>heap = [0 \<mapsto> [3, 4, 7, 7]], fatal_error_handlers = Some 0\<rparr> =
     Some \<lparr>heap = [0 \<mapsto> [3, 4]], fatal_error_handlers = Some 0\<rparr> \<and>
   callFatalErrorHandlers 5 \<lparr>heap = [0 \<mapsto> [3, 4]], fatal_error_handlers = Some 0\<rparr> =
     Some ([OnFatalError 3 5, OnFatalError 4 5], initial_state)"
proof -
  from register_twice_unregister_once [OF history_two, of 1 7 2 5]
  obtain s1 s2 where
    claim: "registerFatalErrorHandler True 1 7
       \<lparr>heap = [0 \<mapsto> [3, 4]], fatal_error_handlers = Some 0\<rparr> = Some s1"
    "registerFatalErrorHandler True 2 7 s1 = Some s2"
    by blast
  have
    "registerFatalErrorHandler True 1 7
       \<lparr>heap = [0 \<mapsto> [3, 4]], fatal_error_handlers = Some 0\<rparr> =
     Some \<lparr>heap = [0 \<mapsto> [3, 4, 7]], fatal_error_handlers = Some 0\<rparr>"
    "registerFatalErrorHandler True 2 7
       \<lparr>heap = [0 \<mapsto> [3, 4, 7]], fatal_error_handlers = Some 0\<rparr> =
     Some \<lparr>heap = [0 \<mapsto> [3, 4, 7, 7]], fatal_error_handlers = Some 0\<rparr>"
    by (simp_all add: registry_defs)
  moreover have
    "callFatalErrorHandlers 5 \<lparr>heap = [0 \<mapsto> [3, 4, 7, 7]], fatal_error_handlers = Some 0\<rparr> =
     Some ([OnFatalError 3 5, OnFatalError 4 5, OnFatalError 7 5, OnFatalError 7 5],
       initial_state)"
    "removeFatalErrorHandler True 7
       \<lparr>heap = [0 \<mapsto> [3, 4, 7, 7]], fatal_error_handlers = Some 0\<rparr> =
     Some \<lparr>heap = [0 \<mapsto> [3, 4]], fatal_error_handlers = Some 0\<rparr>"
    "callFatalErrorHandlers 5 \<lparr>heap = [0 \<mapsto> [3, 4]], fatal_error_handlers = Some 0\<rparr> =
     Some ([OnFatalError 3 5, OnFatalError 4 5], initial_state)"
    by (simp_all add: registry_defs)
  ultimately show ?thesis
    using history_two claim by blast
qed

text \<open>
  C3 as stated fails: after registering 7 twice and removing it once, the list is gone and
  an invocation calls 7 zero times, not once. Without the flag, registering 7 twice leaves
  the initial state and an invocation calls nothing.
\<close>

theorem register_twice_unregister_once_counterexample:
  "run True [Register 0 7, Register 1 7] initial_state =
     Some \<lparr>heap = [0 \<mapsto> [7, 7]], fatal_error_handlers = Some 0\<rparr> \<and>
   removeFatalErrorHandler True 7 \<lparr>heap = [0 \<mapsto> [7, 7]], fatal_error_handlers = Some 0\<rparr> =
     Some initial_state \<and>
   callFatalErrorHandlers 5 initial_state = Some ([], initial_state) \<and>
   run False [Register 0 7, Register 1 7] initial_state = Some initial_state"
  by (simp add: registry_defs)

text \<open>
  C4. In every state of a history, for either setting of the flag,
  \<^verbatim>\<open>removeFatalErrorHandler(h)\<close> completes and leaves registered exactly the entries that
  differ from \<open>h\<close>, in their former order. (Without the flag no handler is ever
  registered, so nothing is there to remove.)
\<close>

theorem unregister_removes_all_equal:
  assumes "run flag history initial_state = Some s"
  shows "\<exists>s'. removeFatalErrorHandler flag h s = Some s' \<and>
      registered s' = filter (\<lambda>x. x \<noteq> h) (registered s)"
proof (cases flag)
  case True
  from remove_well_formed [OF history_well_formed [OF assms], of h] True
  show ?thesis
    by (auto simp: remove_value_filter)
next
  case False
  with assms have "fatal_error_handlers s = None"
    by (simp add: history_flag_off)
  then have "registered s = []"
    by (rule registered_null)
  with False show ?thesis
    by (simp add: flag_off_remove)
qed

theorem unregister_removes_all_equal_witness:
  "run True [Register 0 7, Register 1 3, Register 1 7, Register 1 4] initial_state =
     Some \<lparr>heap = [0 \<mapsto> [7, 3, 7, 4]], fatal_error_handlers = Some 0\<rparr> \<and>
   removeFatalErrorHandler True 7
       \<lparr>heap = [0 \<mapsto> [7, 3, 7, 4]], fatal_error_handlers = Some 0\<rparr> =
     Some \<lparr>heap = [0 \<mapsto> [3, 4]], fatal_error_handlers = Some 0\<rparr> \<and>
   registered \<lparr>heap = [0 \<mapsto> [3, 4]], fatal_error_handlers = Some 0\<rparr> =
     filter (\<lambda>x. x \<noteq> 7)
       (registered \<lparr>heap = [0 \<mapsto> [7, 3, 7, 4]], fatal_error_handlers = Some 0\<rparr>)"
proof -
  have hist:
    "run True [Register 0 7, Register 1 3, Register 1 7, Register 1 4] initial_state =
      Some \<lparr>heap = [0 \<mapsto> [7, 3, 7, 4]], fatal_error_handlers = Some 0\<rparr>"
    by (simp add: registry_defs)
  from unregister_removes_all_equal [OF hist, of 7] obtain s' where
    claim: "removeFatalErrorHandler True 7
       \<lparr>heap = [0 \<mapsto> [7, 3, 7, 4]], fatal_error_handlers = Some 0\<rparr> = Some s'"
    "registered s' = filter (\<lambda>x. x \<noteq> 7)
       (registered \<lparr>heap = [0 \<mapsto> [7, 3, 7, 4]], fatal_error_handlers = Some 0\<rparr>)"
    by blast
  have removed:
    "removeFatalErrorHandler True 7
       \<lparr>heap = [0 \<mapsto> [7, 3, 7, 4]], fatal_error_handlers = Some 0\<rparr> =
     Some \<lparr>heap = [0 \<mapsto> [3, 4]], fatal_error_handlers = Some 0\<rparr>"
    by (simp add: registry_defs)
  with claim have
    "registered \<lparr>heap = [0 \<mapsto> [3, 4]], fatal_error_handlers = Some 0\<rparr> =
     filter (\<lambda>x. x \<noteq> 7)
       (registered \<lparr>heap = [0 \<mapsto> [7, 3, 7, 4]], fatal_error_handlers = Some 0\<rparr>)"
    by simp
  with hist removed show ?thesis
    by blast
qed

text \<open>
  C5. When the pointer is \<^verbatim>\<open>nullptr\<close>, \<^verbatim>\<open>removeFatalErrorHandler(h)\<close> returns
  normally (it dereferences nothing) and leaves the whole state as it was, for every
  handler and either setting of the flag.
\<close>

theorem unregister_on_empty_slot_is_noop:
  assumes "fatal_error_handlers s = None"
  shows "removeFatalErrorHandler flag h s = Some s"
  using assms by (rule remove_null)

theorem unregister_on_empty_slot_is_noop_witness:
  "fatal_error_handlers initial_state = None \<and>
   removeFatalErrorHandler True 7 initial_state = Some initial_state \<and>
   removeFatalErrorHandler False 7 initial_state = Some initial_state"
proof -
  have e: "fatal_error_handlers initial_state = None"
    by (simp add: initial_state_def)
  from e unregister_on_empty_slot_is_noop [OF e, of True 7]
    unregister_on_empty_slot_is_noop [OF e, of False 7]
  show ?thesis by simp
qed

text \<open>
  C6. In the build that has the registry (flag defined; the other build registers nothing), in every
  state of a history, \<^verbatim>\<open>registerFatalErrorHandler(h)\<close> completes and the registered
  sequence afterwards is the former one followed by \<open>h\<close>. When the pointer was
  \<^verbatim>\<open>nullptr\<close>, the list is first allocated, at the address \<^verbatim>\<open>operator new\<close> returns, which
  held no live list, and the sequence is \<open>[h]\<close>; otherwise the pointer is the same as
  before.
\<close>

theorem register_appends:
  assumes "run True history initial_state = Some s"
  shows "\<exists>s'. registerFatalErrorHandler True a h s = Some s' \<and>
      registered s' = registered s @ [h] \<and>
      (if fatal_error_handlers s = None
       then heap s a = None \<and> fatal_error_handlers s' = Some a \<and>
         heap s' = [a \<mapsto> [h]] \<and> registered s' = [h]
       else fatal_error_handlers s' = fatal_error_handlers s)"
proof -
  have wf: "well_formed s"
    using assms by (rule history_well_formed)
  from register_well_formed [OF wf, of a h] obtain s' where
    s': "registerFatalErrorHandler True a h s = Some s'" "registered s' = registered s @ [h]"
    by blast
  show ?thesis
  proof (cases "fatal_error_handlers s = None")
    case True
    from register_fresh [OF wf True, of a h] s'(1) have
      "heap s a = None" "fatal_error_handlers s' = Some a" "heap s' = [a \<mapsto> [h]]"
      by simp_all
    moreover have "registered s' = [h]"
      using s'(2) True by (simp add: registered_null)
    ultimately show ?thesis
      using s' True by simp
  next
    case False
    from register_reuses [OF wf False, of a h] s'(1) have
      "fatal_error_handlers s' = fatal_error_handlers s"
      by simp
    then show ?thesis
      using s' False by simp
  qed
qed

theorem register_appends_witness:
  "run True [] initial_state = Some initial_state \<and>
   registerFatalErrorHandler True 0 7 initial_state =
     Some \<lparr>heap = [0 \<mapsto> [7]], fatal_error_handlers = Some 0\<rparr> \<and>
   registered initial_state = [] \<and>
   registered \<lparr>heap = [0 \<mapsto> [7]], fatal_error_handlers = Some 0\<rparr> = [7] \<and>
   run True [Register 0 3, Register 1 4] initial_state =
     Some \<lparr>heap = [0 \<mapsto> [3, 4]], fatal_error_handlers = Some 0\<rparr> \<and>
   registerFatalErrorHandler True 1 7
       \<lparr>heap = [0 \<mapsto> [3, 4]], fatal_error_handlers = Some 0\<rparr> =
     Some \<lparr>heap = [0 \<mapsto> [3, 4, 7]], fatal_error_handlers = Some 0\<rparr> \<and>
   registered \<lparr>heap = [0 \<mapsto> [3, 4, 7]], fatal_error_handlers = Some 0\<rparr> =
     registered \<lparr>heap = [0 \<mapsto> [3, 4]], fatal_error_handlers = Some 0\<rparr> @ [7]"
proof -
  have start: "run True [] initial_state = Some initial_state"
    by simp
  from register_appends [OF start, of 0 7] obtain s' where
    claim1: "registerFatalErrorHandler True 0 7 initial_state = Some s'"
    "registered s' = registered initial_state @ [7]"
    by blast
  have first:
    "registerFatalErrorHandler True 0 7 initial_state =
       Some \<lparr>heap = [0 \<mapsto> [7]], fatal_error_handlers = Some 0\<rparr>"
    "registered initial_state = []"
    "registered \<lparr>heap = [0 \<mapsto> [7]], fatal_error_handlers = Some 0\<rparr> = [7]"
    by (simp_all add: registry_defs)
  from register_appends [OF history_two, of 1 7] obtain s'' where
    claim2: "registerFatalErrorHandler True 1 7
       \<lparr>heap = [0 \<mapsto> [3, 4]], fatal_error_handlers = Some 0\<rparr> = Some s''"
    "registered s'' =
       registered \<lparr>heap = [0 \<mapsto> [3, 4]], fatal_error_handlers = Some 0\<rparr> @ [7]"
    by blast
  have second:
    "registerFatalErrorHandler True 1 7
       \<lparr>heap = [0 \<mapsto> [3, 4]], fatal_error_handlers = Some 0\<rparr> =
     Some \<lparr>heap = [0 \<mapsto> [3, 4, 7]], fatal_error_handlers = Some 0\<rparr>"
    "registered \<lparr>heap = [0 \<mapsto> [3, 4, 7]], fatal_error_handlers = Some 0\<rparr> =
     registered \<lparr>heap = [0 \<mapsto> [3, 4]], fatal_error_handlers = Some 0\<rparr> @ [7]"
    by (simp_all add: registry_defs)
  from start first second history_two claim1 claim2
  show ?thesis
    by blast
qed

text \<open>
  C7. Every state of a history has the pointer either \<^verbatim>\<open>nullptr\<close> or leading to a list
  that is not empty, and each of the three functions completes in it and leaves such a
  state, for either setting of the flag. When removing \<open>h\<close> takes the last entries out of
  a list, the pointer is \<^verbatim>\<open>nullptr\<close> afterwards and the heap holds no list: it was deleted,
  not stored back empty.
\<close>

theorem slot_empty_or_nonempty_list:
  assumes "run flag history initial_state = Some s"
  shows "empty_or_nonempty s \<and>
    (\<exists>s'. registerFatalErrorHandler flag a h s = Some s' \<and> empty_or_nonempty s') \<and>
    (\<exists>s'. removeFatalErrorHandler flag h s = Some s' \<and> empty_or_nonempty s') \<and>
    (\<exists>cs s'. callFatalErrorHandlers os s = Some (cs, s') \<and> empty_or_nonempty s') \<and>
    (registered s \<noteq> [] \<and> remove_value h (registered s) = [] \<longrightarrow>
      (\<exists>s'. removeFatalErrorHandler flag h s = Some s' \<and>
        fatal_error_handlers s' = None \<and> heap s' = Map.empty))"
proof -
  have wf: "well_formed s"
    using assms by (rule history_well_formed)
  have a: "empty_or_nonempty s"
    using wf by (rule well_formed_empty_or_nonempty)
  have b: "\<exists>s'. registerFatalErrorHandler flag a h s = Some s' \<and> empty_or_nonempty s'"
    using register_completes [OF wf, of flag a h] well_formed_empty_or_nonempty by blast
  have c: "\<exists>s'. removeFatalErrorHandler flag h s = Some s' \<and> empty_or_nonempty s'"
    using remove_completes [OF wf, of flag h] well_formed_empty_or_nonempty by blast
  have d: "\<exists>cs s'. callFatalErrorHandlers os s = Some (cs, s') \<and> empty_or_nonempty s'"
    using call_completes [OF wf, of os] well_formed_empty_or_nonempty by blast
  have e: "\<exists>s'. removeFatalErrorHandler flag h s = Some s' \<and>
        fatal_error_handlers s' = None \<and> heap s' = Map.empty"
    if last: "registered s \<noteq> []" "remove_value h (registered s) = []"
  proof (cases flag)
    case True
    with remove_last [OF wf last] show ?thesis
      by simp
  next
    case False
    with assms have "fatal_error_handlers s = None"
      by (simp add: history_flag_off)
    with last(1) show ?thesis
      by (simp add: registered_null)
  qed
  from a b c d e show ?thesis
    by blast
qed

theorem slot_empty_or_nonempty_list_witness:
  "run True [Register 0 7] initial_state =
     Some \<lparr>heap = [0 \<mapsto> [7]], fatal_error_handlers = Some 0\<rparr> \<and>
   registered \<lparr>heap = [0 \<mapsto> [7]], fatal_error_handlers = Some 0\<rparr> \<noteq> [] \<and>
   remove_value 7 (registered \<lparr>heap = [0 \<mapsto> [7]], fatal_error_handlers = Some 0\<rparr>) = [] \<and>
   removeFatalErrorHandler True 7 \<lparr>heap = [0 \<mapsto> [7]], fatal_error_handlers = Some 0\<rparr> =
     Some \<lparr>heap = Map.empty, fatal_error_handlers = None\<rparr> \<and>
   empty_or_nonempty \<lparr>heap = Map.empty, fatal_error_handlers = None\<rparr> \<and>
   registerFatalErrorHandler True 1 7 \<lparr>heap = [0 \<mapsto> [7]], fatal_error_handlers = Some 0\<rparr> =
     Some \<lparr>heap = [0 \<mapsto> [7, 7]], fatal_error_handlers = Some 0\<rparr> \<and>
   empty_or_nonempty \<lparr>heap = [0 \<mapsto> [7, 7]], fatal_error_handlers = Some 0\<rparr> \<and>
   callFatalErrorHandlers 5 \<lparr>heap = [0 \<mapsto> [7]], fatal_error_handlers = Some 0\<rparr> =
     Some ([OnFatalError 7 5], \<lparr>heap = Map.empty, fatal_error_handlers = None\<rparr>)"
proof -
  have last:
    "registered \<lparr>heap = [0 \<mapsto> [7]], fatal_error_handlers = Some 0\<rparr> \<noteq> []"
    "remove_value 7 (registered \<lparr>heap = [0 \<mapsto> [7]], fatal_error_handlers = Some 0\<rparr>) = []"
    by (simp_all add: registered_def)
  from slot_empty_or_nonempty_list [OF history_one, of 1 7 5] last
  obtain s' where
    claim: "removeFatalErrorHandler True 7
       \<lparr>heap = [0 \<mapsto> [7]], fatal_error_handlers = Some 0\<rparr> = Some s'"
    "fatal_error_handlers s' = None" "heap s' = Map.empty"
    by blast
  have freed:
    "removeFatalErrorHandler True 7 \<lparr>heap = [0 \<mapsto> [7]], fatal_error_handlers = Some 0\<rparr> =
     Some \<lparr>heap = Map.empty, fatal_error_handlers = None\<rparr>"
    by (simp add: registry_defs)
  have others:
    "empty_or_nonempty \<lparr>heap = Map.empty, fatal_error_handlers = None\<rparr>"
    "registerFatalErrorHandler True 1 7 \<lparr>heap = [0 \<mapsto> [7]], fatal_error_handlers = Some 0\<rparr> =
     Some \<lparr>heap = [0 \<mapsto> [7, 7]], fatal_error_handlers = Some 0\<rparr>"
    "empty_or_nonempty \<lparr>heap = [0 \<mapsto> [7, 7]], fatal_error_handlers = Some 0\<rparr>"
    "callFatalErrorHandlers 5 \<lparr>heap = [0 \<mapsto> [7]], fatal_error_handlers = Some 0\<rparr> =
     Some ([OnFatalError 7 5], \<lparr>heap = Map.empty, fatal_error_handlers = None\<rparr>)"
    by (simp_all add: registry_defs empty_or_nonempty_def)
  from history_one last freed others claim show ?thesis
    by blast
qed

text \<open>
  C8. Without the flag, \<^verbatim>\<open>registerFatalErrorHandler\<close> and
  \<^verbatim>\<open>removeFatalErrorHandler\<close> return the state they are given, whatever the handler;
  and in every state of a history without the flag the pointer is \<^verbatim>\<open>nullptr\<close>, so an
  invocation calls no handler and changes nothing.
\<close>

theorem flag_disabled_noops:
  "registerFatalErrorHandler False a h s = Some s \<and>
   removeFatalErrorHandler False h s = Some s \<and>
   (run False history initial_state = Some s \<longrightarrow>
      fatal_error_handlers s = None \<and> callFatalErrorHandlers os s = Some ([], s))"
  by (simp add: flag_off_register flag_off_remove history_flag_off call_null)

theorem flag_disabled_noops_witness:
  "run False [Register 0 3, Remove 4, Invoke 5, Register 1 4] initial_state =
     Some initial_state \<and>
   registerFatalErrorHandler False 0 7 initial_state = Some initial_state \<and>
   removeFatalErrorHandler False 7 initial_state = Some initial_state \<and>
   fatal_error_handlers initial_state = None \<and>
   callFatalErrorHandlers 5 initial_state = Some ([], initial_state)"
proof -
  have hist:
    "run False [Register 0 3, Remove 4, Invoke 5, Register 1 4] initial_state =
     Some initial_state"
    by (simp add: registry_defs)
  with flag_disabled_noops
    [of 0 7 initial_state "[Register 0 3, Remove 4, Invoke 5, Register 1 4]" 5]
  show ?thesis
    by blast
qed

text \<open>
  C9. In the build that has the registry (flag defined; the other build registers nothing), in every
  state of a history: an invocation completes and leaves no list; registering \<open>h\<close> after it
  allocates a list again, at whatever address \<^verbatim>\<open>operator new\<close> returns (it may be the one
  just deleted), holding just \<open>h\<close>; and a second invocation makes the single call
  \<open>h->onFatalError(os')\<close>.
\<close>

theorem registry_usable_after_invocation:
  assumes "run True history initial_state = Some s"
  shows "\<exists>cs s1 s2 s3.
      callFatalErrorHandlers os s = Some (cs, s1) \<and>
      fatal_error_handlers s1 = None \<and> heap s1 = Map.empty \<and>
      registerFatalErrorHandler True a h s1 = Some s2 \<and>
      fatal_error_handlers s2 = Some a \<and> heap s2 = [a \<mapsto> [h]] \<and>
      callFatalErrorHandlers os' s2 = Some ([OnFatalError h os'], s3)"
proof -
  have wf: "well_formed s"
    using assms by (rule history_well_formed)
  from call_well_formed [OF wf, of os] obtain s1 where
    s1: "callFatalErrorHandlers os s = Some (call_each os (registered s), s1)"
      "well_formed s1" "fatal_error_handlers s1 = None" "heap s1 = Map.empty"
    by blast
  from register_fresh [OF s1(2) s1(3), of a h] obtain s2 where
    s2: "registerFatalErrorHandler True a h s1 = Some s2"
      "fatal_error_handlers s2 = Some a" "heap s2 = [a \<mapsto> [h]]"
    by blast
  have "callFatalErrorHandlers os' s2 =
      Some (call_each os' [h], s2\<lparr>heap := (heap s2)(a := None),
        fatal_error_handlers := None\<rparr>)"
    using s2(2) s2(3) by (simp add: call_list [where xs = "[h]"])
  with s1(1) s1(3) s1(4) s2 show ?thesis
    by simp
qed

theorem registry_usable_after_invocation_witness:
  "run True [Register 0 3, Register 1 4] initial_state =
     Some \<lparr>heap = [0 \<mapsto> [3, 4]], fatal_error_handlers = Some 0\<rparr> \<and>
   callFatalErrorHandlers 5 \<lparr>heap = [0 \<mapsto> [3, 4]], fatal_error_handlers = Some 0\<rparr> =
     Some ([OnFatalError 3 5, OnFatalError 4 5], initial_state) \<and>
   registerFatalErrorHandler True 0 7 initial_state =
     Some \<lparr>heap = [0 \<mapsto> [7]], fatal_error_handlers = Some 0\<rparr> \<and>
   callFatalErrorHandlers 6 \<lparr>heap = [0 \<mapsto> [7]], fatal_error_handlers = Some 0\<rparr> =
     Some ([OnFatalError 7 6], initial_state) \<and>
   registerFatalErrorHandler True 1 7 initial_state =
     Some \<lparr>heap = [1 \<mapsto> [7]], fatal_error_handlers = Some 1\<rparr> \<and>
   callFatalErrorHandlers 6 \<lparr>heap = [1 \<mapsto> [7]], fatal_error_handlers = Some 1\<rparr> =
     Some ([OnFatalError 7 6], initial_state)"
proof -
  from registry_usable_after_invocation [OF history_two, of 5 0 7 6]
  obtain cs s1 where
    claim: "callFatalErrorHandlers 5
       \<lparr>heap = [0 \<mapsto> [3, 4]], fatal_error_handlers = Some 0\<rparr> = Some (cs, s1)"
    by blast
  have
    "callFatalErrorHandlers 5 \<lparr>heap = [0 \<mapsto> [3, 4]], fatal_error_handlers = Some 0\<rparr> =
     Some ([OnFatalError 3 5, OnFatalError 4 5], initial_state)"
    by (simp add: registry_defs)
  moreover have
    "registerFatalErrorHandler True 0 7 initial_state =
     Some \<lparr>heap = [0 \<mapsto> [7]], fatal_error_handlers = Some 0\<rparr>"
    "callFatalErrorHandlers 6 \<lparr>heap = [0 \<mapsto> [7]], fatal_error_handlers = Some 0\<rparr> =
     Some ([OnFatalError 7 6], initial_state)"
    "registerFatalErrorHandler True 1 7 initial_state =
     Some \<lparr>heap = [1 \<mapsto> [7]], fatal_error_handlers = Some 1\<rparr>"
    "callFatalErrorHandlers 6 \<lparr>heap = [1 \<mapsto> [7]], fatal_error_handlers = Some 1\<rparr> =
     Some ([OnFatalError 7 6], initial_state)"
    by (simp_all add: registry_defs)
  ultimately show ?thesis
    using history_two claim by blast
qed

text \<open>
  C10. In every state of a history whose registered sequence does not contain \<open>h\<close>, for
  either setting of the flag: registering \<open>h\<close> and then removing it completes and
  restores the registered sequence, indeed the heap and the pointer; removing \<open>h\<close> alone
  leaves the state as it was.
\<close>

theorem register_unregister_round_trip:
  assumes "run flag history initial_state = Some s" and "h \<notin> set (registered s)"
  shows "\<exists>s1 s2. registerFatalErrorHandler flag a h s = Some s1 \<and>
      removeFatalErrorHandler flag h s1 = Some s2 \<and>
      registered s2 = registered s \<and>
      heap s2 = heap s \<and> fatal_error_handlers s2 = fatal_error_handlers s \<and>
      removeFatalErrorHandler flag h s = Some s"
proof (cases flag)
  case True
  have wf: "well_formed s"
    using assms(1) by (rule history_well_formed)
  from register_then_remove [OF wf assms(2), of a] obtain s1 s2 where
    rt: "registerFatalErrorHandler True a h s = Some s1"
      "removeFatalErrorHandler True h s1 = Some s2"
      "heap s2 = heap s" "fatal_error_handlers s2 = fatal_error_handlers s"
    by blast
  have same: "registered s2 = registered s"
    using rt(3) rt(4) by (rule registered_same)
  have alone: "removeFatalErrorHandler True h s = Some s"
    using wf assms(2) by (rule remove_absent)
  have "\<exists>s1 s2. registerFatalErrorHandler True a h s = Some s1 \<and>
      removeFatalErrorHandler True h s1 = Some s2 \<and>
      registered s2 = registered s \<and>
      heap s2 = heap s \<and> fatal_error_handlers s2 = fatal_error_handlers s \<and>
      removeFatalErrorHandler True h s = Some s"
    by (intro exI conjI) (fact rt same alone)+
  with True show ?thesis
    by simp
next
  case False
  then show ?thesis
    by (simp add: flag_off_register flag_off_remove)
qed

theorem register_unregister_round_trip_witness:
  "run True [Register 0 3, Register 1 4] initial_state =
     Some \<lparr>heap = [0 \<mapsto> [3, 4]], fatal_error_handlers = Some 0\<rparr> \<and>
   7 \<notin> set (registered \<lparr>heap = [0 \<mapsto> [3, 4]], fatal_error_handlers = Some 0\<rparr>) \<and>
   registerFatalErrorHandler True 1 7
       \<lparr>heap = [0 \<mapsto> [3, 4]], fatal_error_handlers = Some 0\<rparr> =
     Some \<lparr>heap = [0 \<mapsto> [3, 4, 7]], fatal_error_handlers = Some 0\<rparr> \<and>
   removeFatalErrorHandler True 7
       \<lparr>heap = [0 \<mapsto> [3, 4, 7]], fatal_error_handlers = Some 0\<rparr> =
     Some \<lparr>heap = [0 \<mapsto> [3, 4]], fatal_error_handlers = Some 0\<rparr> \<and>
   removeFatalErrorHandler True 7
       \<lparr>heap = [0 \<mapsto> [3, 4]], fatal_error_handlers = Some 0\<rparr> =
     Some \<lparr>heap = [0 \<mapsto> [3, 4]], fatal_error_handlers = Some 0\<rparr>"
proof -
  have absent:
    "7 \<notin> set (registered \<lparr>heap = [0 \<mapsto> [3, 4]], fatal_error_handlers = Some 0\<rparr>)"
    by (simp add: registered_def)
  from register_unregister_round_trip [OF history_two absent, of 1]
  have alone: "removeFatalErrorHandler True 7
       \<lparr>heap = [0 \<mapsto> [3, 4]], fatal_error_handlers = Some 0\<rparr> =
     Some \<lparr>heap = [0 \<mapsto> [3, 4]], fatal_error_handlers = Some 0\<rparr>"
    by blast
  have both:
    "registerFatalErrorHandler True 1 7
       \<lparr>heap = [0 \<mapsto> [3, 4]], fatal_error_handlers = Some 0\<rparr> =
     Some \<lparr>heap = [0 \<mapsto> [3, 4, 7]], fatal_error_handlers = Some 0\<rparr>"
    "removeFatalErrorHandler True 7
       \<lparr>heap = [0 \<mapsto> [3, 4, 7]], fatal_error_handlers = Some 0\<rparr> =
     Some \<lparr>heap = [0 \<mapsto> [3, 4]], fatal_error_handlers = Some 0\<rparr>"
    by (simp_all add: registry_defs)
  from history_two absent both alone show ?thesis
    by blast
qed

end
